theory Spec2Isabelle
  imports Main "HOL-Library.Sublist" "HOL-Library.Option_ord"
begin

section \<open>Exceptions\<close>

text \<open>
  The Python exceptions that the modelled functions can raise: the built-in
  \<^verbatim>\<open>IndexError\<close> of an out-of-range subscript, and the package's own
  \<^verbatim>\<open>IntegrityError\<close> (\<^verbatim>\<open>from errors import IntegrityError\<close>).
\<close>

datatype py_error = IndexError | IntegrityError

section \<open>greengenes.py\<close>

text \<open>
  \<^verbatim>\<open>
  def _add_space(species, genus):
      l = len(genus)
      if species.startswith(genus) and species[l] != ' ':
          return ' '.join((species[:l], species[l:]))
      return species
  \<close>
  \<^verbatim>\<open>and\<close> evaluates its right operand only when the left one is true; the
  subscript \<^verbatim>\<open>species[l]\<close> raises IndexError when \<^verbatim>\<open>l >= len(species)\<close>.
\<close>

definition add_space :: "string \<Rightarrow> string \<Rightarrow> py_error + string" where
  "add_space species genus =
     (let l = length genus in
      if prefix genus species then
        (if l < length species then
           (if species ! l \<noteq> CHR '' '' then Inr (take l species @ '' '' @ drop l species)
            else Inr species)
         else Inl IndexError)
      else Inr species)"

section \<open>ncbi.py: the tables\<close>

text \<open>
  The rows of the tables \<^verbatim>\<open>nodes\<close> and \<^verbatim>\<open>names\<close> of \<^verbatim>\<open>db_schema\<close>, with the
  columns the modelled functions read or write. A nullable column is an option (NULL is
  \<open>None\<close>); \<^verbatim>\<open>nodes.tax_id\<close> is \<^verbatim>\<open>NOT NULL\<close>. A table is the list of its rows in
  rowid order.
\<close>

record node =
  tax_id :: string
  parent_id :: "string option"
  rank :: "string option"
  is_valid :: "int option"

record name =
  tax_id :: "string option"
  tax_name :: "string option"
  unique_name :: "string option"
  name_class :: "string option"
  is_primary :: "int option"
  is_classified :: "int option"

text \<open>
  SQL comparison \<^verbatim>\<open>a = b\<close> in a WHERE clause: a comparison with NULL is not true.
  \<^verbatim>\<open>a IN (?, ..., ?)\<close> with non-NULL parameters likewise.
\<close>

definition sql_eq :: "'a option \<Rightarrow> 'a option \<Rightarrow> bool" where
  "sql_eq a b = (case a of None \<Rightarrow> False | Some x \<Rightarrow> (case b of None \<Rightarrow> False | Some y \<Rightarrow> x = y))"

definition sql_in :: "'a option \<Rightarrow> 'a list \<Rightarrow> bool" where
  "sql_in a ps = (case a of None \<Rightarrow> False | Some x \<Rightarrow> x \<in> set ps)"

section \<open>ncbi.py: seeding and propagating \<^verbatim>\<open>is_valid\<close>\<close>

text \<open>
  \<^verbatim>\<open>
  def mark_is_valid(con, regex=UNCLASSIFIED_REGEX):
      sql = """UPDATE nodes SET is_valid =
               (SELECT is_classified FROM names WHERE names.tax_id = tax_id)"""
  \<close>
  Inside the subquery the unqualified \<^verbatim>\<open>tax_id\<close> is resolved in the innermost scope,
  the table \<^verbatim>\<open>names\<close>: the condition compares \<^verbatim>\<open>names.tax_id\<close> with itself and is
  true of every row whose \<^verbatim>\<open>tax_id\<close> is not NULL. A scalar subquery yields the first row
  of its result (a scan of \<^verbatim>\<open>names\<close> in rowid order), or NULL when there is none.
\<close>

definition mark_is_valid :: "node list \<Rightarrow> name list \<Rightarrow> node list" where
  "mark_is_valid nodes names =
     (let v = (case filter (\<lambda>r. sql_eq (name.tax_id r) (name.tax_id r)) names of
                 [] \<Rightarrow> None
               | r # _ \<Rightarrow> is_classified r)
      in map (\<lambda>n. n\<lparr>is_valid := v\<rparr>) nodes)"

text \<open>
  \<^verbatim>\<open>
  def partition(iterable, size):
      iterable = iter(iterable)
      while True:
          chunk = list(itertools.islice(iterable, 0, size))
          if chunk: yield chunk
          else: break
  \<close>
\<close>

function partition_iter :: "'a list \<Rightarrow> nat \<Rightarrow> 'a list list" where
  "partition_iter iterable sz =
     (if take sz iterable \<noteq> [] then take sz iterable # partition_iter (drop sz iterable) sz
      else [])"
  by pat_completeness auto
termination
  by (relation "measure (\<lambda>(iterable, sz). length iterable)") auto

declare partition_iter.simps [simp del]

text \<open>
  \<^verbatim>\<open>SELECT tax_id FROM nodes WHERE parent_id IN (?, ..., ?)\<close> with the ids of one chunk,
  and \<^verbatim>\<open>UPDATE nodes SET is_valid = ? WHERE tax_id = ?\<close>, run by \<^verbatim>\<open>executemany\<close> once
  for each id of a list.
\<close>

definition child_sql :: "node list \<Rightarrow> string list \<Rightarrow> string list" where
  "child_sql nodes chunk = map node.tax_id (filter (\<lambda>n. sql_in (parent_id n) chunk) nodes)"

definition update_is_valid :: "int option \<Rightarrow> string \<Rightarrow> node list \<Rightarrow> node list" where
  "update_is_valid v t nodes = map (\<lambda>n. if node.tax_id n = t then n\<lparr>is_valid := v\<rparr> else n) nodes"

definition executemany_is_valid :: "int option \<Rightarrow> string list \<Rightarrow> node list \<Rightarrow> node list" where
  "executemany_is_valid v ts nodes = fold (update_is_valid v) ts nodes"

text \<open>
  \<^verbatim>\<open>
  def mark_subtrees(tax_ids, is_valid):
      to_mark = list(tax_ids)
      while to_mark:
          cursor.executemany("""UPDATE nodes SET is_valid = ? WHERE tax_id = ?""",
              ([is_valid, tax_id] for tax_id in tax_ids))
          chunked = partition(to_mark, 250)
          to_mark = [i[0] for i in itertools.chain.from_iterable(
                         cursor.execute(child_sql.format(...), chunk) for chunk in chunked)]
  \<close>
  The UPDATE runs over \<^verbatim>\<open>tax_ids\<close>, the ids the function was called with, at every
  level; \<^verbatim>\<open>to_mark\<close> only drives the child lookups. The loop may run forever (a
  self-parented row in the frontier is its own child), so the model takes fuel: one unit
  for each evaluation of the loop condition, \<open>None\<close> when it runs out.
\<close>

fun mark_subtrees_loop ::
  "nat \<Rightarrow> string list \<Rightarrow> int option \<Rightarrow> string list \<Rightarrow> node list \<Rightarrow> node list option" where
  "mark_subtrees_loop 0 tax_ids v to_mark nodes = None"
| "mark_subtrees_loop (Suc fuel) tax_ids v to_mark nodes =
     (if to_mark \<noteq> [] then
        (let nodes' = executemany_is_valid v tax_ids nodes;
             chunked = partition_iter to_mark 250;
             to_mark' = concat (map (child_sql nodes') chunked)
         in mark_subtrees_loop fuel tax_ids v to_mark' nodes')
      else Some nodes)"

definition mark_subtrees :: "nat \<Rightarrow> node list \<Rightarrow> string list \<Rightarrow> int option \<Rightarrow> node list option" where
  "mark_subtrees fuel nodes tax_ids v = mark_subtrees_loop fuel tax_ids v tax_ids nodes"

text \<open>
  \<^verbatim>\<open>
  SELECT nodes.tax_id, pnodes.is_valid
  FROM nodes JOIN nodes pnodes ON pnodes.tax_id = nodes.parent_id
  WHERE pnodes.rank = ?
  ORDER BY pnodes.is_valid
  \<close>
  NULL sorts first (the order of \<open>int option\<close> puts \<open>None\<close> first); rows with equal keys
  keep the order of the join. The result is taken as read in full before the first
  UPDATE of the pass.
\<close>

definition below_rank_query :: "node list \<Rightarrow> string \<Rightarrow> (string \<times> int option) list" where
  "below_rank_query nodes r =
     sort_key snd
       (concat (map (\<lambda>n. map (\<lambda>p. (node.tax_id n, is_valid p))
                             (filter (\<lambda>p. sql_eq (Some (node.tax_id p)) (parent_id n) \<and> sql_eq (rank p) (Some r)) nodes))
                    nodes))"

text \<open>\<^verbatim>\<open>itertools.groupby(cursor, operator.itemgetter(1))\<close>: runs of consecutive rows with
  the same second component.\<close>

function groupby :: "('a \<times> 'k) list \<Rightarrow> ('k \<times> ('a \<times> 'k) list) list" where
  "groupby [] = []"
| "groupby (x # xs) =
     (snd x, x # takeWhile (\<lambda>y. snd y = snd x) xs) # groupby (dropWhile (\<lambda>y. snd y = snd x) xs)"
  by pat_completeness auto
termination
  by (relation "measure length") (auto simp: length_dropWhile_le less_Suc_eq_le)

text \<open>
  \<^verbatim>\<open>
  def update_subtree_validity(con, mark_below_rank='species'):
      cursor.execute(below_rank_query, [mark_below_rank])
      grouped = itertools.groupby(cursor, operator.itemgetter(1))
      for is_valid, records in grouped:
          tax_ids = [i[0] for i in records]
          mark_subtrees(tax_ids, is_valid)
  \<close>
  Each call of \<^verbatim>\<open>mark_subtrees\<close> gets the same fuel.
\<close>

fun mark_groups ::
  "nat \<Rightarrow> (int option \<times> (string \<times> int option) list) list \<Rightarrow> node list \<Rightarrow> node list option" where
  "mark_groups fuel [] nodes = Some nodes"
| "mark_groups fuel ((v, records) # grouped) nodes =
     (case mark_subtrees fuel nodes (map fst records) v of
        None \<Rightarrow> None
      | Some nodes' \<Rightarrow> mark_groups fuel grouped nodes')"

definition update_subtree_validity :: "nat \<Rightarrow> node list \<Rightarrow> string \<Rightarrow> node list option" where
  "update_subtree_validity fuel nodes mark_below_rank =
     mark_groups fuel (groupby (below_rank_query nodes mark_below_rank)) nodes"

text \<open>
  The reference pass of the refinement claim, in the specification's words (section 4.5):
  "group boundary-adjacent nodes by their parent's is_valid value; for each value,
  iteratively expand the frontier level by level - mark the current frontier, fetch its
  children, repeat until the frontier is empty", with the children fetched by one lookup
  \<^verbatim>\<open>WHERE parent_id IN (...)\<close> over the whole frontier ("an unchunked reference pass that
  queries all frontier ids at once"). It marks the frontier of each level; the fuel counts
  the levels as in \<open>mark_subtrees_loop\<close>.
\<close>

fun reference_mark_loop ::
  "nat \<Rightarrow> int option \<Rightarrow> string list \<Rightarrow> node list \<Rightarrow> node list option" where
  "reference_mark_loop 0 v frontier nodes = None"
| "reference_mark_loop (Suc fuel) v frontier nodes =
     (if frontier \<noteq> [] then
        (let nodes' = executemany_is_valid v frontier nodes;
             frontier' = child_sql nodes' frontier
         in reference_mark_loop fuel v frontier' nodes')
      else Some nodes)"

fun reference_mark_groups ::
  "nat \<Rightarrow> (int option \<times> (string \<times> int option) list) list \<Rightarrow> node list \<Rightarrow> node list option" where
  "reference_mark_groups fuel [] nodes = Some nodes"
| "reference_mark_groups fuel ((v, records) # grouped) nodes =
     (case reference_mark_loop fuel v (map fst records) nodes of
        None \<Rightarrow> None
      | Some nodes' \<Rightarrow> reference_mark_groups fuel grouped nodes')"

definition reference_pass :: "nat \<Rightarrow> node list \<Rightarrow> string \<Rightarrow> node list option" where
  "reference_pass fuel nodes mark_below_rank =
     reference_mark_groups fuel (groupby (below_rank_query nodes mark_below_rank)) nodes"

section \<open>Trees of nodes\<close>

text \<open>
  The hypotheses of the termination claim, after the specification's invariants: "exactly
  one root (parent==self); every non-root tax_id's parent exists in nodes; no tax_id is a
  child of two distinct parents". \<open>lineage nodes k t\<close> walks the parent pointers upward
  from \<open>t\<close> and stops at the self-parented root, in at most \<open>k\<close> steps; it is \<open>None\<close>
  when a parent is missing or NULL, or when the walk takes more than \<open>k\<close> steps. In a
  table of \<open>n\<close> rows a walk without a cycle takes at most \<open>n\<close> steps, so \<open>is_tree\<close> asks
  for distinct ids, one self-parented row, and a lineage within \<open>length nodes\<close> steps
  for every row.
\<close>

fun lineage :: "node list \<Rightarrow> nat \<Rightarrow> string \<Rightarrow> string list option" where
  "lineage nodes 0 t = None"
| "lineage nodes (Suc k) t =
     (case find (\<lambda>n. node.tax_id n = t) nodes of
        None \<Rightarrow> None
      | Some n \<Rightarrow>
          (case parent_id n of
             None \<Rightarrow> None
           | Some p \<Rightarrow> if p = t then Some [t] else map_option (Cons t) (lineage nodes k p)))"

definition is_tree :: "node list \<Rightarrow> bool" where
  "is_tree nodes \<longleftrightarrow>
     distinct (map node.tax_id nodes) \<and>
     length (filter (\<lambda>n. parent_id n = Some (node.tax_id n)) nodes) = 1 \<and>
     (\<forall>n \<in> set nodes. lineage nodes (length nodes) (node.tax_id n) \<noteq> None)"

text \<open>
  The depth of the subtrees below a list of seeds, counted in levels: \<open>level_in seeds l\<close>
  is, for a lineage \<open>l\<close> (the node first, the root last), one more than the number of
  steps up to the farthest ancestor-or-self that is a seed, or 0 when there is none;
  \<open>subtree_depth\<close> is the greatest such level of a row of the table.
\<close>

fun level_in :: "string list \<Rightarrow> string list \<Rightarrow> nat" where
  "level_in seeds [] = 0"
| "level_in seeds (t # ancestors) =
     (if 0 < level_in seeds ancestors then Suc (level_in seeds ancestors)
      else if t \<in> set seeds then 1 else 0)"

definition subtree_level :: "node list \<Rightarrow> string list \<Rightarrow> string \<Rightarrow> nat" where
  "subtree_level nodes seeds t =
     (case lineage nodes (length nodes) t of None \<Rightarrow> 0 | Some l \<Rightarrow> level_in seeds l)"

definition subtree_depth :: "node list \<Rightarrow> string list \<Rightarrow> nat" where
  "subtree_depth nodes seeds = fold max (map (\<lambda>n. subtree_level nodes seeds (node.tax_id n)) nodes) 0"

section \<open>ncbi.py: the unclassified patterns and \<^verbatim>\<open>read_names\<close>\<close>

text \<open>
  The fragment of Python's regular expressions that \<^verbatim>\<open>UNCLASSIFIED_REGEX\<close> uses: literal
  text, a character class \<^verbatim>\<open>[...]\<close>, \<^verbatim>\<open>\d\<close>, the word boundary \<^verbatim>\<open>\b\<close>, concatenation
  and alternation. The strings are byte strings and no flag is given, so a word character
  is an ASCII letter, a digit or the underscore. \<open>rx_match r s i\<close> lists the positions
  where a match of \<open>r\<close> that starts at position \<open>i\<close> of \<open>s\<close> can end; \<^verbatim>\<open>search\<close> succeeds
  when a match starts at some position from 0 to \<^verbatim>\<open>len(s)\<close>.
\<close>

datatype rx = Lit string | Cls string | Digit | WordB | Seq "rx list" | Alt "rx list"

definition is_word :: "char \<Rightarrow> bool" where
  "is_word c \<longleftrightarrow> c \<in> set ''abcdefghijklmnopqrstuvwxyzABCDEFGHIJKLMNOPQRSTUVWXYZ0123456789_''"

fun rx_match :: "rx \<Rightarrow> string \<Rightarrow> nat \<Rightarrow> nat list"
and rx_seq :: "rx list \<Rightarrow> string \<Rightarrow> nat list \<Rightarrow> nat list"
and rx_alt :: "rx list \<Rightarrow> string \<Rightarrow> nat \<Rightarrow> nat list" where
  "rx_match (Lit l) s i = (if take (length l) (drop i s) = l then [i + length l] else [])"
| "rx_match (Cls cs) s i = (if i < length s \<and> s ! i \<in> set cs then [Suc i] else [])"
| "rx_match Digit s i = (if i < length s \<and> s ! i \<in> set ''0123456789'' then [Suc i] else [])"
| "rx_match WordB s i =
     (if (0 < i \<and> i \<le> length s \<and> is_word (s ! (i - 1))) \<noteq> (i < length s \<and> is_word (s ! i))
      then [i] else [])"
| "rx_match (Seq rs) s i = rx_seq rs s [i]"
| "rx_match (Alt rs) s i = rx_alt rs s i"
| "rx_seq [] s ps = ps"
| "rx_seq (r # rs) s ps = rx_seq rs s (concat (map (rx_match r s) ps))"
| "rx_alt [] s i = []"
| "rx_alt (r # rs) s i = rx_match r s i @ rx_alt rs s i"

definition rx_search :: "rx \<Rightarrow> string \<Rightarrow> bool" where
  "rx_search r s = list_ex (\<lambda>i. rx_match r s i \<noteq> []) [0..<Suc (length s)]"

text \<open>
  \<^verbatim>\<open>UNCLASSIFIED_REGEX = re.compile(r'' + r'|'.join(frozenset([...])))\<close>, the alternatives
  in the order of the source list (the order of an alternation does not change whether
  \<^verbatim>\<open>search\<close> finds a match). Two pairs of adjacent string literals have no comma between
  them and are one pattern each: \<^verbatim>\<open>'Taxon' '\d\d'\<close> and \<^verbatim>\<open>r'str\.' 'strain'\<close>. The
  literal \<^verbatim>\<open>'vector\b'\<close> is not a raw string: its last character is a backspace (0x08).
\<close>

definition UNCLASSIFIED_REGEX :: rx where
  "UNCLASSIFIED_REGEX = Alt
     [Lit ''-like'',
      Seq [Lit ''Taxon'', Digit, Digit],
      Lit ''acidophile'',
      Lit ''actinobacterium'',
      Lit ''aerobic'',
      Seq [WordB, Cls ''Al'', Lit ''g'', Alt [Lit ''um'', Lit ''a''], WordB],
      Seq [WordB, Cls ''Bb'', Lit ''acteri'', Alt [Lit ''um'', Lit ''a'']],
      Lit ''Barophile'',
      Lit ''cyanobacterium'',
      Lit ''Chloroplast'',
      Lit ''Cloning'',
      Lit ''cluster'',
      Lit ''-containing'',
      Lit ''epibiont'',
      Lit ''eubacterium'',
      Seq [WordB, Cls ''Gg'', Lit ''roup'', WordB],
      Lit ''halophilic'',
      Seq [Lit ''hydrothermal'', WordB],
      Lit ''isolate'',
      Lit ''marine'',
      Lit ''methanotroph'',
      Lit ''microorganism'',
      Lit ''mollicute'',
      Lit ''pathogen'',
      Seq [Cls ''Pp'', Lit ''hytoplasma''],
      Lit ''proteobacterium'',
      Lit ''putative'',
      Seq [WordB, Lit ''sp.''],
      Lit ''species'',
      Lit ''spirochete'',
      Lit ''str.strain'',
      Lit ''symbiont'',
      Lit ''taxon'',
      Lit ''unicellular'',
      Lit ''uncultured'',
      Lit ''unclassified'',
      Lit ''unidentified'',
      Lit ''unknown'',
      Lit (''vector'' @ [CHR 0x08]),
      Seq [Lit ''vent'', WordB]]"

text \<open>
  \<^verbatim>\<open>str.strip()\<close> and \<^verbatim>\<open>str.split()\<close> of a byte string: whitespace is the space and the
  characters 0x09 to 0x0D; \<^verbatim>\<open>split()\<close> gives the maximal runs of other characters.
\<close>

definition py_isspace :: "char \<Rightarrow> bool" where
  "py_isspace c \<longleftrightarrow> c \<in> set [CHR '' '', CHR 0x09, CHR 0x0A, CHR 0x0B, CHR 0x0C, CHR 0x0D]"

definition strip :: "string \<Rightarrow> string" where
  "strip s = rev (dropWhile py_isspace (rev (dropWhile py_isspace s)))"

fun split_acc :: "string \<Rightarrow> string \<Rightarrow> string list" where
  "split_acc [] w = (if w = [] then [] else [rev w])"
| "split_acc (c # cs) w =
     (if py_isspace c then (if w = [] then split_acc cs [] else rev w # split_acc cs [])
      else split_acc cs (c # w))"

definition split_words :: "string \<Rightarrow> string list" where
  "split_words s = split_acc s []"

text \<open>
  \<^verbatim>\<open>
  def read_names(rows, unclassified_regex = None):
      keys = 'tax_id tax_name unique_name name_class'.split()
      def _is_primary(row):
          if row[name_class] != 'scientific name': result = 0
          elif not row[unique_name]: result = 1
          elif row[tax_name] == row[unique_name].split('<')[0].strip(): result = 1
          else: result = 0
          return result
      if unclassified_regex:
          def _is_classified(row):
              """... Search no more than the first two whitespace-delimited words."""
              tn = row[tax_name]
              return 0 if unclassified_regex.search(tn) else 1
      else:
          _is_classified = lambda row: None
      for row in rows:
          yield row + [_is_primary(row), _is_classified(row)]
  \<close>
  A row is a list of strings; \<^verbatim>\<open>tax_name\<close>, \<^verbatim>\<open>unique_name\<close> and \<^verbatim>\<open>name_class\<close> are the
  indices 1, 2 and 3, and a subscript out of range raises IndexError. The row that is
  yielded, \<^verbatim>\<open>row + [p, c]\<close>, is the triple \<open>(row, p, c)\<close>; an exception ends the iteration,
  and the model then returns the exception for the whole call.
\<close>

definition is_primary_of_row :: "string list \<Rightarrow> py_error + int" where
  "is_primary_of_row row =
     (if length row < 4 then Inl IndexError
      else if row ! 3 \<noteq> ''scientific name'' then Inr 0
      else if row ! 2 = [] then Inr 1
      else if row ! 1 = strip (takeWhile (\<lambda>c. c \<noteq> CHR ''<'') (row ! 2)) then Inr 1
      else Inr 0)"

definition is_classified_of_row :: "rx option \<Rightarrow> string list \<Rightarrow> py_error + int option" where
  "is_classified_of_row unclassified_regex row =
     (case unclassified_regex of
        None \<Rightarrow> Inr None
      | Some r \<Rightarrow>
          if length row < 2 then Inl IndexError
          else Inr (Some (if rx_search r (row ! 1) then 0 else 1)))"

fun read_names ::
  "string list list \<Rightarrow> rx option \<Rightarrow> py_error + (string list \<times> int \<times> int option) list" where
  "read_names [] unclassified_regex = Inr []"
| "read_names (row # rows) unclassified_regex =
     (case is_primary_of_row row of
        Inl e \<Rightarrow> Inl e
      | Inr p \<Rightarrow>
          (case is_classified_of_row unclassified_regex row of
             Inl e \<Rightarrow> Inl e
           | Inr c \<Rightarrow>
               (case read_names rows unclassified_regex of
                  Inl e \<Rightarrow> Inl e
                | Inr out \<Rightarrow> Inr ((row, p, c) # out))))"

section \<open>ncbi.py: \<^verbatim>\<open>fix_missing_primary\<close>\<close>

text \<open>
  \<^verbatim>\<open>
  def fix_missing_primary(con):
      missing_primary = """SELECT tax_id FROM names
          GROUP BY tax_id HAVING SUM(is_primary) = 0;"""
      rows_for_taxid = """SELECT tax_id, tax_name, unique_name, name_class
          FROM names WHERE tax_id = ?"""
      cursor = con.cursor()
      tax_ids = [i[0] for i in cursor.execute(missing_primary)]
      for tax_id in tax_ids:
          records = list(cursor.execute(rows_for_taxid, [tax_id]))
          if sum(i[-1] == 'scientific name' for i in records) == 1:
              tax_id, tax_name, unique_name, name_class = next(i for i in records
                      if i[-1] == 'scientific name')
              cursor.execute("""UPDATE names SET is_primary = 1
                  WHERE tax_id = ? AND name_class = ?""", [tax_id, 'scientific name'])
          else:
              tax_id, tax_name, unique_name, name_class = records[0]
          cursor.execute("""UPDATE names SET is_primary = 1
              WHERE tax_id = ? AND tax_name = ? AND
                  unique_name = ? AND name_class = ?""",
              [tax_id, tax_name, unique_name, name_class])
  \<close>
  The last UPDATE is at the indentation of the loop body: it runs after either branch.

  \<^verbatim>\<open>GROUP BY\<close> puts the rows with a NULL \<^verbatim>\<open>tax_id\<close> into one group; \<^verbatim>\<open>SUM\<close> adds the
  values that are not NULL and is NULL when there is none, and \<^verbatim>\<open>HAVING NULL = 0\<close> does
  not select. SQL leaves the order of the groups open: the model lists each selected id
  once, in the order in which \<open>remdups\<close> keeps them, and the result of the loop is the same
  for every other order (\<open>heal_all_order\<close> below). The list \<^verbatim>\<open>tax_ids\<close> is read in full
  before the first UPDATE.
\<close>

type_synonym name_row = "string option \<times> string option \<times> string option \<times> string option"

definition select_row :: "name \<Rightarrow> name_row" where
  "select_row r = (name.tax_id r, tax_name r, unique_name r, name_class r)"

definition sum_is_primary :: "name list \<Rightarrow> int option" where
  "sum_is_primary grp =
     (let vs = map the (filter (\<lambda>v. v \<noteq> None) (map is_primary grp))
      in if vs = [] then None else Some (sum_list vs))"

definition missing_primary :: "name list \<Rightarrow> string option list" where
  "missing_primary names =
     filter (\<lambda>t. sql_eq (sum_is_primary (filter (\<lambda>r. name.tax_id r = t) names)) (Some 0))
       (remdups (map name.tax_id names))"

definition rows_for_taxid :: "name list \<Rightarrow> string option \<Rightarrow> name_row list" where
  "rows_for_taxid names t = map select_row (filter (\<lambda>r. sql_eq (name.tax_id r) t) names)"

text \<open>
  The two WHERE clauses, over the columns \<open>select_row\<close> of a row of the table, and an
  \<^verbatim>\<open>UPDATE names SET is_primary = 1 WHERE ...\<close>. The state is the table together with the
  number of rows that the UPDATE statements executed so far have written (the rows matching
  the WHERE clause, whatever their value was, as SQLite's \<^verbatim>\<open>changes()\<close> counts them).
\<close>

definition where_class :: "string option \<Rightarrow> string option \<Rightarrow> name_row \<Rightarrow> bool" where
  "where_class t c k \<longleftrightarrow> sql_eq (fst k) t \<and> sql_eq (snd (snd (snd k))) c"

definition where_row :: "name_row \<Rightarrow> name_row \<Rightarrow> bool" where
  "where_row chosen k \<longleftrightarrow>
     sql_eq (fst k) (fst chosen) \<and> sql_eq (fst (snd k)) (fst (snd chosen)) \<and>
     sql_eq (fst (snd (snd k))) (fst (snd (snd chosen))) \<and>
     sql_eq (snd (snd (snd k))) (snd (snd (snd chosen)))"

definition set_primary :: "(name_row \<Rightarrow> bool) \<Rightarrow> name \<Rightarrow> name" where
  "set_primary w r = (if w (select_row r) then r\<lparr>is_primary := Some 1\<rparr> else r)"

definition update_is_primary :: "(name_row \<Rightarrow> bool) \<Rightarrow> name list \<times> nat \<Rightarrow> name list \<times> nat" where
  "update_is_primary w s =
     (map (set_primary w) (fst s), snd s + length (filter w (map select_row (fst s))))"

definition is_scientific :: "name_row \<Rightarrow> bool" where
  "is_scientific i \<longleftrightarrow> snd (snd (snd i)) = Some ''scientific name''"

text \<open>
  One iteration of the loop, for the id \<open>t\<close>. \<^verbatim>\<open>next(...)\<close> is evaluated only when one
  record has the name class "scientific name", and returns it; \<^verbatim>\<open>records[0]\<close> raises
  IndexError when \<^verbatim>\<open>records\<close> is empty. The tuple assignment rebinds \<^verbatim>\<open>tax_id\<close> to the id
  of the chosen record, and the UPDATE statements take their parameters from that record.
\<close>

definition heal :: "name list \<times> nat \<Rightarrow> string option \<Rightarrow> py_error + name list \<times> nat" where
  "heal s t =
     (let records = rows_for_taxid (fst s) t in
      if length (filter is_scientific records) = 1 then
        (let chosen = hd (filter is_scientific records);
             s' = update_is_primary (where_class (fst chosen) (Some ''scientific name'')) s
         in Inr (update_is_primary (where_row chosen) s'))
      else
        (case records of
           [] \<Rightarrow> Inl IndexError
         | chosen # _ \<Rightarrow> Inr (update_is_primary (where_row chosen) s)))"

fun heal_all :: "string option list \<Rightarrow> name list \<times> nat \<Rightarrow> py_error + name list \<times> nat" where
  "heal_all [] s = Inr s"
| "heal_all (t # ts) s = (case heal s t of Inl e \<Rightarrow> Inl e | Inr s' \<Rightarrow> heal_all ts s')"

definition fix_missing_primary :: "name list \<Rightarrow> py_error + name list \<times> nat" where
  "fix_missing_primary names = heal_all (missing_primary names) (names, 0)"

text \<open>
  What one iteration does, read off the columns of the table alone: whether it raises, which
  rows it promotes and how many rows its UPDATE statements write.
\<close>

definition heal_fails :: "name_row list \<Rightarrow> string option \<Rightarrow> bool" where
  "heal_fails keys t \<longleftrightarrow>
     length (filter is_scientific (filter (\<lambda>k. sql_eq (fst k) t) keys)) \<noteq> 1 \<and>
     filter (\<lambda>k. sql_eq (fst k) t) keys = []"

definition healed :: "name_row list \<Rightarrow> string option \<Rightarrow> name_row \<Rightarrow> bool" where
  "healed keys t k \<longleftrightarrow>
     (let records = filter (\<lambda>k. sql_eq (fst k) t) keys in
      if length (filter is_scientific records) = 1 then
        where_class (fst (hd (filter is_scientific records))) (Some ''scientific name'') k \<or>
        where_row (hd (filter is_scientific records)) k
      else records \<noteq> [] \<and> where_row (hd records) k)"

definition written :: "name_row list \<Rightarrow> string option \<Rightarrow> nat" where
  "written keys t =
     (let records = filter (\<lambda>k. sql_eq (fst k) t) keys in
      if length (filter is_scientific records) = 1 then
        length (filter (where_class (fst (hd (filter is_scientific records))) (Some ''scientific name'')) keys) +
        length (filter (where_row (hd (filter is_scientific records))) keys)
      else if records = [] then 0 else length (filter (where_row (hd records)) keys))"

text \<open>The number of rows of the id \<open>t\<close> with \<^verbatim>\<open>is_primary = 1\<close>.\<close>

definition primary_count :: "name list \<Rightarrow> string \<Rightarrow> nat" where
  "primary_count names t =
     length (filter (\<lambda>r. name.tax_id r = Some t \<and> is_primary r = Some 1) names)"

section \<open>Properties of \<^verbatim>\<open>_add_space\<close>\<close>

lemma add_space_raises_iff: "add_space species genus = Inl e \<longleftrightarrow> (e = IndexError \<and> species = genus)"
proof -
  have "prefix genus species \<Longrightarrow> \<not> length genus < length species \<Longrightarrow> species = genus"
    by (metis prefix_length_le le_neq_implies_less prefix_length_prefix prefix_order.eq_iff order_refl)
  then show ?thesis
    by (auto simp: add_space_def Let_def)
qed

text \<open>
  C10. The claim is that \<^verbatim>\<open>_add_space\<close> returns normally for every pair of strings,
  also when species equals genus. At species = genus = "Foo" the prefix test succeeds and
  the subscript \<^verbatim>\<open>species[3]\<close> is out of range: the call raises IndexError.
\<close>

theorem add_space_equal_raises: "add_space ''Foo'' ''Foo'' = Inl IndexError"
  by (simp add: add_space_def)

section \<open>Properties of the validity flag\<close>

lemma mark_is_valid_uniform:
  "n \<in> set (mark_is_valid nodes names) \<Longrightarrow> m \<in> set (mark_is_valid nodes names) \<Longrightarrow>
   is_valid n = is_valid m"
  by (auto simp: mark_is_valid_def Let_def)

text \<open>
  C2. The claim is that after \<^verbatim>\<open>mark_is_valid\<close> each node's \<^verbatim>\<open>is_valid\<close> is the
  classification of that node's own primary name. In the table below node 2 has the primary
  name "uncultured bacterium", stored with \<^verbatim>\<open>is_classified = 0\<close>, and node 1 the primary
  name "root" with \<^verbatim>\<open>is_classified = 1\<close>: the subquery is not correlated with the node
  being updated, and both nodes get the value of the first row of \<^verbatim>\<open>names\<close>, 1.
\<close>

theorem mark_is_valid_ignores_own_name:
  "mark_is_valid
     [\<lparr>node.tax_id = ''1'', parent_id = Some ''1'', rank = Some ''root'', is_valid = Some 1\<rparr>,
      \<lparr>node.tax_id = ''2'', parent_id = Some ''1'', rank = Some ''species'', is_valid = Some 1\<rparr>]
     [\<lparr>name.tax_id = Some ''1'', tax_name = Some ''root'', unique_name = Some [],
       name_class = Some ''scientific name'', is_primary = Some 1, is_classified = Some 1\<rparr>,
      \<lparr>name.tax_id = Some ''2'', tax_name = Some ''uncultured bacterium'', unique_name = Some [],
       name_class = Some ''scientific name'', is_primary = Some 1, is_classified = Some 0\<rparr>]
   = [\<lparr>node.tax_id = ''1'', parent_id = Some ''1'', rank = Some ''root'', is_valid = Some 1\<rparr>,
      \<lparr>node.tax_id = ''2'', parent_id = Some ''1'', rank = Some ''species'', is_valid = Some 1\<rparr>]"
  by (simp add: mark_is_valid_def sql_eq_def Let_def)

text \<open>
  C1. The claim is that after one call of \<^verbatim>\<open>update_subtree_validity\<close> every node below a
  child of a species-rank node carries that species node's \<^verbatim>\<open>is_valid\<close>. In the chain
  1 (root) - 2 (species, invalid) - 3 (subspecies) - 4 (no rank), node 3 is marked invalid,
  and node 4, two levels below the species node, keeps its own value 1: every level of the
  loop updates the ids the function was called with, never the frontier.
\<close>

theorem update_subtree_validity_misses_grandchild:
  "update_subtree_validity 3
     [\<lparr>node.tax_id = ''1'', parent_id = Some ''1'', rank = Some ''root'', is_valid = Some 1\<rparr>,
      \<lparr>node.tax_id = ''2'', parent_id = Some ''1'', rank = Some ''species'', is_valid = Some 0\<rparr>,
      \<lparr>node.tax_id = ''3'', parent_id = Some ''2'', rank = Some ''subspecies'', is_valid = Some 1\<rparr>,
      \<lparr>node.tax_id = ''4'', parent_id = Some ''3'', rank = Some ''no_rank'', is_valid = Some 1\<rparr>]
     ''species''
   = Some
     [\<lparr>node.tax_id = ''1'', parent_id = Some ''1'', rank = Some ''root'', is_valid = Some 1\<rparr>,
      \<lparr>node.tax_id = ''2'', parent_id = Some ''1'', rank = Some ''species'', is_valid = Some 0\<rparr>,
      \<lparr>node.tax_id = ''3'', parent_id = Some ''2'', rank = Some ''subspecies'', is_valid = Some 0\<rparr>,
      \<lparr>node.tax_id = ''4'', parent_id = Some ''3'', rank = Some ''no_rank'', is_valid = Some 1\<rparr>]"
  by (simp add: update_subtree_validity_def below_rank_query_def sql_eq_def sql_in_def
      mark_subtrees_def partition_iter.simps child_sql_def update_is_valid_def
      executemany_is_valid_def eval_nat_numeral)

section \<open>Chunked child lookups\<close>

lemma partition_iter_chunks:
  "c \<in> set (partition_iter xs n) \<Longrightarrow> c \<noteq> [] \<and> length c \<le> n"
proof (induction xs n rule: partition_iter.induct)
  case (1 xs n)
  show ?case
  proof (cases "take n xs = []")
    case True
    with 1(2) show ?thesis by (simp add: partition_iter.simps[of xs n])
  next
    case False
    with 1(2) have "c = take n xs \<or> c \<in> set (partition_iter (drop n xs) n)"
      by (simp add: partition_iter.simps[of xs n])
    then show ?thesis using False 1(1) by auto
  qed
qed

lemma concat_partition_iter: "0 < n \<Longrightarrow> concat (partition_iter xs n) = xs"
proof (induction xs n rule: partition_iter.induct)
  case (1 xs n)
  show ?case
  proof (cases "take n xs = []")
    case True
    with 1(2) have "xs = []" by auto
    then show ?thesis by (simp add: partition_iter.simps[of "[]" n])
  next
    case False
    with 1 show ?thesis by (simp add: partition_iter.simps[of xs n])
  qed
qed

lemma ceil_step:
  assumes "0 < (n::nat)" "0 < k"
  shows "(k + n - 1) div n = Suc ((k - n + n - 1) div n)"
proof -
  have dv: "(m + n) div n = Suc (m div n)" for m
    using assms(1) div_add_self2[of n m] by simp
  show ?thesis
  proof (cases "n \<le> k")
    case True
    then obtain j where k: "k = j + n" by (metis le_add_diff_inverse2)
    have e1: "k + n - 1 = (j + n - 1) + n" using assms k by arith
    have e2: "k - n + n - 1 = j + n - 1" using k by simp
    show ?thesis unfolding e1 e2 by (rule dv)
  next
    case False
    have e1: "k + n - 1 = (k - 1) + n" using assms by arith
    have e2: "k - n + n - 1 = n - 1" using False by simp
    have z1: "(k - 1) div n = 0" using False assms by simp
    have z2: "(n - 1) div n = 0" using assms by simp
    show ?thesis unfolding e1 e2 dv z1 z2 by simp
  qed
qed

lemma length_partition_iter:
  "0 < n \<Longrightarrow> length (partition_iter xs n) = (length xs + n - 1) div n"
proof (induction xs n rule: partition_iter.induct)
  case (1 xs n)
  show ?case
  proof (cases "take n xs = []")
    case True
    with 1(2) have "xs = []" by auto
    then show ?thesis using 1(2) by (simp add: partition_iter.simps[of "[]" n])
  next
    case False
    then have ne: "0 < length xs" by auto
    have ih: "length (partition_iter (drop n xs) n) = (length xs - n + n - 1) div n"
      using 1 False by simp
    have "length (partition_iter xs n) = Suc (length (partition_iter (drop n xs) n))"
      using False by (simp add: partition_iter.simps[of xs n])
    then show ?thesis using ih ceil_step[OF 1(2) ne] by simp
  qed
qed

lemma set_child_sql: "set (child_sql nodes c) = {node.tax_id n | n. n \<in> set nodes \<and> sql_in (parent_id n) c}"
  by (auto simp: child_sql_def)

lemma sql_in_set: "set c = set c' \<Longrightarrow> sql_in a c = sql_in a c'"
  by (simp add: sql_in_def split: option.splits)

lemma set_child_sql_chunked:
  assumes "0 < k"
  shows "set (concat (map (child_sql nodes) (partition_iter tm k))) = set (child_sql nodes tm)"
proof -
  have app: "set (child_sql nodes (c @ d)) = set (child_sql nodes c) \<union> set (child_sql nodes d)" for c d
    by (auto simp: child_sql_def sql_in_def split: option.splits)
  have nil: "child_sql nodes [] = []"
    by (simp add: child_sql_def sql_in_def split: option.splits)
  have "set (concat (map (child_sql nodes) cs)) = set (child_sql nodes (concat cs))" for cs
    by (induction cs) (simp_all add: app nil)
  then show ?thesis using concat_partition_iter[OF assms, of tm] by simp
qed

lemma child_sql_cong: "set c = set c' \<Longrightarrow> child_sql nodes c = child_sql nodes c'"
  by (simp add: child_sql_def sql_in_set[of c c'] cong: filter_cong)

lemma frontier_chunked_eq:
  "set (concat (map (child_sql nodes) (partition_iter to_mark 250))) = set (child_sql nodes to_mark)"
  by (rule set_child_sql_chunked) simp

lemma partition_600:
  "length to_mark = 600 \<Longrightarrow> length (partition_iter to_mark 250) = 3"
  using length_partition_iter[of 250 to_mark] by simp

text \<open>
  C3. The claim is that every batched child lookup names at most 250 ids, that 600 ids
  make 3 lookups, and that the chunked pass ends with the flags of the unchunked reference
  pass. The chunks are as claimed (\<open>partition_iter_chunks\<close>, \<open>partition_600\<close>) and the
  chunked lookups of a level find the children that one lookup finds
  (\<open>frontier_chunked_eq\<close>), but the final flags differ: on the chain
  1 (root) - 2 (species, invalid) - 3 (subspecies) - 4 (no rank) the reference pass marks
  the frontier of each level and ends with nodes 3 and 4 invalid, and
  \<^verbatim>\<open>update_subtree_validity\<close> leaves node 4 valid, because its UPDATE runs over the ids it
  was called with at every level.
\<close>

theorem chunked_pass_differs_from_reference:
  "update_subtree_validity 3
     [\<lparr>node.tax_id = ''1'', parent_id = Some ''1'', rank = Some ''root'', is_valid = Some 1\<rparr>,
      \<lparr>node.tax_id = ''2'', parent_id = Some ''1'', rank = Some ''species'', is_valid = Some 0\<rparr>,
      \<lparr>node.tax_id = ''3'', parent_id = Some ''2'', rank = Some ''subspecies'', is_valid = Some 1\<rparr>,
      \<lparr>node.tax_id = ''4'', parent_id = Some ''3'', rank = Some ''no_rank'', is_valid = Some 1\<rparr>]
     ''species''
   = Some
     [\<lparr>node.tax_id = ''1'', parent_id = Some ''1'', rank = Some ''root'', is_valid = Some 1\<rparr>,
      \<lparr>node.tax_id = ''2'', parent_id = Some ''1'', rank = Some ''species'', is_valid = Some 0\<rparr>,
      \<lparr>node.tax_id = ''3'', parent_id = Some ''2'', rank = Some ''subspecies'', is_valid = Some 0\<rparr>,
      \<lparr>node.tax_id = ''4'', parent_id = Some ''3'', rank = Some ''no_rank'', is_valid = Some 1\<rparr>] \<and>
   reference_pass 3
     [\<lparr>node.tax_id = ''1'', parent_id = Some ''1'', rank = Some ''root'', is_valid = Some 1\<rparr>,
      \<lparr>node.tax_id = ''2'', parent_id = Some ''1'', rank = Some ''species'', is_valid = Some 0\<rparr>,
      \<lparr>node.tax_id = ''3'', parent_id = Some ''2'', rank = Some ''subspecies'', is_valid = Some 1\<rparr>,
      \<lparr>node.tax_id = ''4'', parent_id = Some ''3'', rank = Some ''no_rank'', is_valid = Some 1\<rparr>]
     ''species''
   = Some
     [\<lparr>node.tax_id = ''1'', parent_id = Some ''1'', rank = Some ''root'', is_valid = Some 1\<rparr>,
      \<lparr>node.tax_id = ''2'', parent_id = Some ''1'', rank = Some ''species'', is_valid = Some 0\<rparr>,
      \<lparr>node.tax_id = ''3'', parent_id = Some ''2'', rank = Some ''subspecies'', is_valid = Some 0\<rparr>,
      \<lparr>node.tax_id = ''4'', parent_id = Some ''3'', rank = Some ''no_rank'', is_valid = Some 0\<rparr>]"
  by (simp add: update_subtree_validity_def reference_pass_def below_rank_query_def sql_eq_def
      sql_in_def mark_subtrees_def partition_iter.simps child_sql_def update_is_valid_def
      executemany_is_valid_def eval_nat_numeral)

section \<open>Termination of the propagation loop\<close>

lemma find_tax_id:
  "distinct (map node.tax_id nodes) \<Longrightarrow> n \<in> set nodes \<Longrightarrow>
   find (\<lambda>m. node.tax_id m = node.tax_id n) nodes = Some n"
  by (induction nodes) (auto simp: image_iff)

lemma lineage_mono:
  "lineage nodes k t = Some l \<Longrightarrow> k \<le> k' \<Longrightarrow> lineage nodes k' t = Some l"
proof (induction k arbitrary: t l k')
  case 0
  then show ?case by simp
next
  case (Suc k)
  from Suc.prems(2) obtain j where k': "k' = Suc j" and kj: "k \<le> j"
    by (cases k') auto
  show ?case
    using Suc.prems(1) Suc.IH[OF _ kj] unfolding k'
    by (auto split: option.splits if_splits)
qed

lemma fold_max_ge: "(x::nat) \<in> set xs \<Longrightarrow> x \<le> fold max xs a"
proof (induction xs arbitrary: a)
  case Nil
  then show ?case by simp
next
  case (Cons y ys)
  have ge: "b \<le> fold max ys b" for b
    by (induction ys arbitrary: b) (auto intro: order_trans[OF max.cobounded2])
  show ?case
  proof (cases "x = y")
    case True
    then show ?thesis using ge[of "max y a"] by simp
  next
    case False
    with Cons show ?thesis by simp
  qed
qed

lemma subtree_level_le_depth:
  "n \<in> set nodes \<Longrightarrow> subtree_level nodes seeds (node.tax_id n) \<le> subtree_depth nodes seeds"
  unfolding subtree_depth_def by (rule fold_max_ge) simp


lemma child_sql_update: "child_sql (update_is_valid v t nodes) c = child_sql nodes c"
  by (induction nodes) (auto simp: child_sql_def update_is_valid_def)

lemma child_sql_executemany: "child_sql (executemany_is_valid v ts nodes) c = child_sql nodes c"
  unfolding executemany_is_valid_def
  by (induction ts arbitrary: nodes) (simp_all add: child_sql_update)

lemma lineage_hd: "lineage nodes k t = Some l \<Longrightarrow> \<exists>l'. l = t # l'"
  by (cases k) (auto split: option.splits if_splits)

lemma lineage_child:
  assumes tree: "is_tree nodes" and n: "n \<in> set nodes"
    and p: "parent_id n = Some p" and ne: "p \<noteq> node.tax_id n"
  shows "\<exists>l. lineage nodes (length nodes) p = Some l \<and>
             lineage nodes (length nodes) (node.tax_id n) = Some (node.tax_id n # l)"
proof -
  from n obtain k where k: "length nodes = Suc k"
    by (cases nodes) auto
  have f: "find (\<lambda>m. node.tax_id m = node.tax_id n) nodes = Some n"
    using tree n by (simp add: is_tree_def find_tax_id)
  have "lineage nodes (Suc k) (node.tax_id n) \<noteq> None"
    using tree n k by (simp add: is_tree_def)
  then obtain l where l: "lineage nodes k p = Some l"
    using f p ne by (auto split: option.splits)
  then have "lineage nodes (Suc k) p = Some l"
    by (rule lineage_mono) simp
  moreover have "lineage nodes (Suc k) (node.tax_id n) = Some (node.tax_id n # l)"
    using f p ne l by simp
  ultimately show ?thesis unfolding k by blast
qed

lemma subtree_level_child:
  assumes "is_tree nodes" "n \<in> set nodes" "parent_id n = Some p" "p \<noteq> node.tax_id n"
    and "0 < subtree_level nodes seeds p"
  shows "subtree_level nodes seeds (node.tax_id n) = Suc (subtree_level nodes seeds p)"
proof -
  from lineage_child[OF assms(1-4)] obtain l where
    "lineage nodes (length nodes) p = Some l"
    "lineage nodes (length nodes) (node.tax_id n) = Some (node.tax_id n # l)"
    by blast
  with assms(5) show ?thesis by (simp add: subtree_level_def)
qed

lemma subtree_level_seed:
  assumes "is_tree nodes" "n \<in> set nodes" "node.tax_id n \<in> set seeds"
  shows "0 < subtree_level nodes seeds (node.tax_id n)"
proof -
  from assms(1,2) obtain l where l: "lineage nodes (length nodes) (node.tax_id n) = Some l"
    by (auto simp: is_tree_def)
  from lineage_hd[OF l] obtain l' where "l = node.tax_id n # l'" by blast
  with l assms(3) show ?thesis by (simp add: subtree_level_def)
qed

lemma mark_subtrees_loop_terminates:
  assumes tree: "is_tree nodes0"
    and struct: "\<And>c. child_sql nodes c = child_sql nodes0 c"
    and inv: "\<forall>t \<in> set tm. (\<exists>n \<in> set nodes0. node.tax_id n = t \<and> parent_id n \<noteq> Some t) \<and>
                 i < subtree_level nodes0 seeds t"
    and fuel: "subtree_depth nodes0 seeds - i < fuel"
  shows "\<exists>r. mark_subtrees_loop fuel ids v tm nodes = Some r"
  using struct inv fuel
proof (induction fuel arbitrary: tm i nodes)
  case 0
  then show ?case by simp
next
  case (Suc fuel)
  show ?case
  proof (cases "tm = []")
    case True
    then show ?thesis by simp
  next
    case False
    let ?nodes = "executemany_is_valid v ids nodes"
    let ?tm = "concat (map (child_sql ?nodes) (partition_iter tm 250))"
    have struct': "child_sql ?nodes c = child_sql nodes0 c" for c
      by (simp add: child_sql_executemany Suc.prems(1))
    have dist: "distinct (map node.tax_id nodes0)"
      using tree by (simp add: is_tree_def)
    have tm': "set ?tm = set (child_sql nodes0 tm)"
      using set_child_sql_chunked[of 250 ?nodes tm] by (simp add: struct')
    have inv': "\<forall>c \<in> set ?tm. (\<exists>n \<in> set nodes0. node.tax_id n = c \<and> parent_id n \<noteq> Some c) \<and>
                 Suc i < subtree_level nodes0 seeds c"
    proof
      fix c assume "c \<in> set ?tm"
      then obtain n p where n: "n \<in> set nodes0" "node.tax_id n = c"
          and p: "parent_id n = Some p" "p \<in> set tm"
        unfolding tm' by (auto simp: child_sql_def sql_in_def split: option.splits)
      from Suc.prems(2) p(2) obtain m where m: "m \<in> set nodes0" "node.tax_id m = p"
          "parent_id m \<noteq> Some p" and lv: "i < subtree_level nodes0 seeds p"
        by blast
      have ne: "p \<noteq> node.tax_id n"
      proof
        assume "p = node.tax_id n"
        then have "n = m" using dist n(1) m(1,2)
          by (metis distinct_map inj_onD)
        then show False using m(2,3) p(1) by simp
      qed
      have "subtree_level nodes0 seeds (node.tax_id n) = Suc (subtree_level nodes0 seeds p)"
        using subtree_level_child[OF tree n(1) p(1) ne] lv by simp
      then show "(\<exists>n \<in> set nodes0. node.tax_id n = c \<and> parent_id n \<noteq> Some c) \<and>
                 Suc i < subtree_level nodes0 seeds c"
        using n p(1) ne lv by auto
    qed
    from False obtain t where t: "t \<in> set tm" by (cases tm) auto
    with Suc.prems(2) obtain m where "m \<in> set nodes0" "node.tax_id m = t"
        "i < subtree_level nodes0 seeds t"
      by blast
    then have "i < subtree_depth nodes0 seeds"
      using subtree_level_le_depth[of m nodes0 seeds] by simp
    with Suc.prems(3) have fuel': "subtree_depth nodes0 seeds - Suc i < fuel" by simp
    from Suc.IH[of ?nodes ?tm "Suc i", OF struct' inv' fuel']
    show ?thesis using False by (simp add: Let_def)
  qed
qed

text \<open>
  C9. On a table whose parent pointers form a tree, and for seeds that are ids of the table
  other than the root, the loop of \<^verbatim>\<open>mark_subtrees\<close> terminates: fuel for
  \<open>subtree_depth nodes tax_ids + 1\<close> evaluations of the loop condition is enough, that is
  at most one expansion level for each level of the subtrees below the seeds.
\<close>

theorem mark_subtrees_terminates:
  assumes "is_tree nodes"
    and "\<forall>t \<in> set tax_ids. \<exists>n \<in> set nodes. node.tax_id n = t \<and> parent_id n \<noteq> Some t"
  shows "\<exists>nodes'. mark_subtrees (Suc (subtree_depth nodes tax_ids)) nodes tax_ids v = Some nodes'"
proof -
  have inv: "\<forall>t \<in> set tax_ids. (\<exists>n \<in> set nodes. node.tax_id n = t \<and> parent_id n \<noteq> Some t) \<and>
                 0 < subtree_level nodes tax_ids t"
  proof
    fix t assume t: "t \<in> set tax_ids"
    with assms(2) obtain n where n: "n \<in> set nodes" "node.tax_id n = t" "parent_id n \<noteq> Some t"
      by blast
    from subtree_level_seed[OF assms(1) n(1), of tax_ids] n(2) t
    have "0 < subtree_level nodes tax_ids t" by simp
    with n show "(\<exists>n \<in> set nodes. node.tax_id n = t \<and> parent_id n \<noteq> Some t) \<and>
                 0 < subtree_level nodes tax_ids t"
      by auto
  qed
  show ?thesis
    unfolding mark_subtrees_def
    by (rule mark_subtrees_loop_terminates[OF assms(1) _ inv]) simp_all
qed


theorem mark_subtrees_terminates_witness:
  "is_tree
     [\<lparr>node.tax_id = ''1'', parent_id = Some ''1'', rank = Some ''root'', is_valid = Some 1\<rparr>,
      \<lparr>node.tax_id = ''2'', parent_id = Some ''1'', rank = Some ''species'', is_valid = Some 0\<rparr>,
      \<lparr>node.tax_id = ''3'', parent_id = Some ''2'', rank = Some ''subspecies'', is_valid = Some 1\<rparr>,
      \<lparr>node.tax_id = ''4'', parent_id = Some ''3'', rank = Some ''no_rank'', is_valid = Some 1\<rparr>,
      \<lparr>node.tax_id = ''5'', parent_id = Some ''1'', rank = Some ''genus'', is_valid = Some 1\<rparr>] \<and>
   subtree_depth
     [\<lparr>node.tax_id = ''1'', parent_id = Some ''1'', rank = Some ''root'', is_valid = Some 1\<rparr>,
      \<lparr>node.tax_id = ''2'', parent_id = Some ''1'', rank = Some ''species'', is_valid = Some 0\<rparr>,
      \<lparr>node.tax_id = ''3'', parent_id = Some ''2'', rank = Some ''subspecies'', is_valid = Some 1\<rparr>,
      \<lparr>node.tax_id = ''4'', parent_id = Some ''3'', rank = Some ''no_rank'', is_valid = Some 1\<rparr>,
      \<lparr>node.tax_id = ''5'', parent_id = Some ''1'', rank = Some ''genus'', is_valid = Some 1\<rparr>] [''3''] = 2 \<and>
   (\<exists>nodes'. mark_subtrees 3
     [\<lparr>node.tax_id = ''1'', parent_id = Some ''1'', rank = Some ''root'', is_valid = Some 1\<rparr>,
      \<lparr>node.tax_id = ''2'', parent_id = Some ''1'', rank = Some ''species'', is_valid = Some 0\<rparr>,
      \<lparr>node.tax_id = ''3'', parent_id = Some ''2'', rank = Some ''subspecies'', is_valid = Some 1\<rparr>,
      \<lparr>node.tax_id = ''4'', parent_id = Some ''3'', rank = Some ''no_rank'', is_valid = Some 1\<rparr>,
      \<lparr>node.tax_id = ''5'', parent_id = Some ''1'', rank = Some ''genus'', is_valid = Some 1\<rparr>] [''3''] (Some 0) = Some nodes')"
proof -
  let ?nodes = "[\<lparr>node.tax_id = ''1'', parent_id = Some ''1'', rank = Some ''root'', is_valid = Some 1\<rparr>,
      \<lparr>node.tax_id = ''2'', parent_id = Some ''1'', rank = Some ''species'', is_valid = Some 0\<rparr>,
      \<lparr>node.tax_id = ''3'', parent_id = Some ''2'', rank = Some ''subspecies'', is_valid = Some 1\<rparr>,
      \<lparr>node.tax_id = ''4'', parent_id = Some ''3'', rank = Some ''no_rank'', is_valid = Some 1\<rparr>,
      \<lparr>node.tax_id = ''5'', parent_id = Some ''1'', rank = Some ''genus'', is_valid = Some 1\<rparr>]"
  have tree: "is_tree ?nodes"
    by (simp add: is_tree_def)
  have seeds: "\<forall>t \<in> set [''3'']. \<exists>n \<in> set ?nodes. node.tax_id n = t \<and> parent_id n \<noteq> Some t"
    by simp
  have depth: "subtree_depth ?nodes [''3''] = 2"
    by (simp add: subtree_depth_def subtree_level_def)
  from mark_subtrees_terminates[OF tree seeds, of "Some 0"] depth
  have "\<exists>nodes'. mark_subtrees 3 ?nodes [''3''] (Some 0) = Some nodes'"
    by (simp add: eval_nat_numeral)
  with tree depth show ?thesis by blast
qed

section \<open>Classification of names\<close>

lemma is_classified_whole_name:
  "is_classified_of_row (Some r) [t, n, u, c] = Inr (Some (if rx_search r n then 0 else 1))"
  by (simp add: is_classified_of_row_def)

text \<open>
  C8. The claim is that two rows whose names agree on their first two whitespace-delimited
  words get the same \<^verbatim>\<open>is_classified\<close>. "Homo sapiens" and "Homo sapiens uncultured" agree
  on their first two words; \<^verbatim>\<open>read_names\<close> gives the first \<^verbatim>\<open>is_classified = 1\<close> and the
  second \<^verbatim>\<open>is_classified = 0\<close>, because the search runs over the whole name and finds
  "uncultured" in the third word.
\<close>

theorem read_names_searches_whole_name:
  "take 2 (split_words ''Homo sapiens'') = take 2 (split_words ''Homo sapiens uncultured'') \<and>
   read_names
     [[''9606'', ''Homo sapiens'', [], ''scientific name''],
      [''9606'', ''Homo sapiens uncultured'', [], ''synonym'']]
     (Some UNCLASSIFIED_REGEX)
   = Inr [([''9606'', ''Homo sapiens'', [], ''scientific name''], 1, Some 1),
          ([''9606'', ''Homo sapiens uncultured'', [], ''synonym''], 0, Some 0)]"
  by code_simp

section \<open>Healing of primary names\<close>

lemma select_row_set_primary: "select_row (set_primary w r) = select_row r"
  by (simp add: set_primary_def select_row_def)

lemma keys_set_primary: "map select_row (map (set_primary w) names) = map select_row names"
  by (simp add: select_row_set_primary)

lemma set_primary_twice:
  "set_primary w2 (set_primary w1 r) = set_primary (\<lambda>k. w1 k \<or> w2 k) r"
  by (simp add: set_primary_def select_row_def)

lemma rows_for_taxid_keys:
  "rows_for_taxid names t = filter (\<lambda>k. sql_eq (fst k) t) (map select_row names)"
  by (simp add: rows_for_taxid_def filter_map comp_def select_row_def)

lemma heal_eq:
  "heal s t =
     (if heal_fails (map select_row (fst s)) t then Inl IndexError
      else Inr (map (set_primary (healed (map select_row (fst s)) t)) (fst s),
                snd s + written (map select_row (fst s)) t))"
proof (cases "length (filter is_scientific (rows_for_taxid (fst s) t)) = 1")
  case True
  let ?chosen = "hd (filter is_scientific (rows_for_taxid (fst s) t))"
  let ?wc = "where_class (fst ?chosen) (Some ''scientific name'')"
  have h: "healed (map select_row (fst s)) t = (\<lambda>k. ?wc k \<or> where_row ?chosen k)"
    using True by (intro ext) (simp add: healed_def Let_def rows_for_taxid_keys[symmetric])
  have w: "written (map select_row (fst s)) t =
             length (filter ?wc (map select_row (fst s))) +
             length (filter (where_row ?chosen) (map select_row (fst s)))"
    using True by (simp add: written_def Let_def rows_for_taxid_keys[symmetric])
  have f: "\<not> heal_fails (map select_row (fst s)) t"
    using True by (simp add: heal_fails_def rows_for_taxid_keys[symmetric])
  have "heal s t = Inr (update_is_primary (where_row ?chosen) (update_is_primary ?wc s))"
    using True by (simp add: heal_def Let_def)
  also have "update_is_primary (where_row ?chosen) (update_is_primary ?wc s) =
     (map (set_primary (\<lambda>k. ?wc k \<or> where_row ?chosen k)) (fst s),
      snd s + (length (filter ?wc (map select_row (fst s))) +
               length (filter (where_row ?chosen) (map select_row (fst s)))))"
    by (simp add: update_is_primary_def keys_set_primary set_primary_twice comp_def
        select_row_set_primary)
  finally show ?thesis using f by (simp add: h w)
next
  case False
  show ?thesis
  proof (cases "rows_for_taxid (fst s) t")
    case Nil
    with False show ?thesis
      by (simp add: heal_def heal_fails_def rows_for_taxid_keys[symmetric])
  next
    case (Cons chosen rest)
    have h: "healed (map select_row (fst s)) t = where_row chosen"
      using False Cons by (intro ext) (simp add: healed_def Let_def rows_for_taxid_keys[symmetric])
    have w: "written (map select_row (fst s)) t =
               length (filter (where_row chosen) (map select_row (fst s)))"
      using False Cons by (simp add: written_def Let_def rows_for_taxid_keys[symmetric])
    have f: "\<not> heal_fails (map select_row (fst s)) t"
      using Cons by (simp add: heal_fails_def rows_for_taxid_keys[symmetric])
    have "heal s t = Inr (update_is_primary (where_row chosen) s)"
      using False Cons by (simp add: heal_def Let_def)
    then show ?thesis using f by (simp add: h w update_is_primary_def)
  qed
qed

lemma heal_all_eq:
  "heal_all ts s =
     (if \<exists>t \<in> set ts. heal_fails (map select_row (fst s)) t then Inl IndexError
      else Inr (map (set_primary (\<lambda>k. \<exists>t \<in> set ts. healed (map select_row (fst s)) t k)) (fst s),
                snd s + sum_list (map (written (map select_row (fst s))) ts)))"
proof (induction ts arbitrary: s)
  case Nil
  show ?case by (simp add: set_primary_def map_idI)
next
  case (Cons t ts)
  show ?case
  proof (cases "heal_fails (map select_row (fst s)) t")
    case True
    then show ?thesis by (simp add: heal_eq)
  next
    case False
    let ?s = "(map (set_primary (healed (map select_row (fst s)) t)) (fst s),
               snd s + written (map select_row (fst s)) t)"
    have k: "map select_row (fst ?s) = map select_row (fst s)"
      by (simp add: select_row_set_primary)
    have sp: "(\<lambda>k. healed K t k \<or> (\<exists>t \<in> set ts. healed K t k)) = (\<lambda>k. \<exists>t \<in> set (t # ts). healed K t k)" for K
      by auto
    from False have "heal_all (t # ts) s = heal_all ts ?s"
      by (simp add: heal_eq)
    also have "\<dots> = (if \<exists>t \<in> set ts. heal_fails (map select_row (fst s)) t then Inl IndexError
      else Inr (map (set_primary (\<lambda>k. \<exists>t \<in> set (t # ts). healed (map select_row (fst s)) t k)) (fst s),
                snd s + sum_list (map (written (map select_row (fst s))) (t # ts))))"
      unfolding Cons.IH[of ?s] k by (simp add: set_primary_twice comp_def sp del: set_simps)
    finally show ?thesis using False by simp
  qed
qed

lemma heal_all_order:
  "distinct ts \<Longrightarrow> distinct ts' \<Longrightarrow> set ts = set ts' \<Longrightarrow> heal_all ts s = heal_all ts' s"
  by (simp add: heal_all_eq sum_list_distinct_conv_sum_set)

lemma fix_missing_primary_eq:
  "fix_missing_primary names =
     (if \<exists>t \<in> set (missing_primary names). heal_fails (map select_row names) t then Inl IndexError
      else Inr (map (set_primary (\<lambda>k. \<exists>t \<in> set (missing_primary names). healed (map select_row names) t k)) names,
                sum_list (map (written (map select_row names)) (missing_primary names))))"
  by (simp add: fix_missing_primary_def heal_all_eq)


lemma sql_eq_Some: "sql_eq a (Some x) \<longleftrightarrow> a = Some x"
  by (auto simp: sql_eq_def split: option.splits)

lemma sql_eq_same: "sql_eq a b \<Longrightarrow> a = b"
  by (auto simp: sql_eq_def split: option.splits)

lemma healed_tax_id:
  assumes "healed K t k"
  shows "sql_eq (fst k) t"
proof -
  let ?records = "filter (\<lambda>k. sql_eq (fst k) t) K"
  have rec: "sql_eq (fst k) t" if "c \<in> set ?records" "sql_eq (fst k) (fst c)" for c
  proof -
    from that(1) have "sql_eq (fst c) t" by simp
    with that(2) show ?thesis by (auto simp: sql_eq_def split: option.splits)
  qed
  show ?thesis
  proof (cases "length (filter is_scientific ?records) = 1")
    case True
    then have "filter is_scientific ?records \<noteq> []" by auto
    then have "hd (filter is_scientific ?records) \<in> set (filter is_scientific ?records)"
      by (rule hd_in_set)
    then have c: "hd (filter is_scientific ?records) \<in> set ?records" by simp
    from assms True
    have "sql_eq (fst k) (fst (hd (filter is_scientific ?records)))"
      by (auto simp: healed_def Let_def where_class_def where_row_def)
    with c show ?thesis by (rule rec)
  next
    case False
    with assms have ne: "?records \<noteq> []" and w: "where_row (hd ?records) k"
      by (simp_all add: healed_def Let_def)
    from ne have "hd ?records \<in> set ?records" by (rule hd_in_set)
    moreover from w have "sql_eq (fst k) (fst (hd ?records))" by (simp add: where_row_def)
    ultimately show ?thesis by (rule rec)
  qed
qed

lemma healed_only:
  "healed K t' (select_row r) \<Longrightarrow> name.tax_id r = Some t \<Longrightarrow> t' = Some t"
  using healed_tax_id[of K t' "select_row r"] sql_eq_same[of "Some t" t']
  by (simp add: select_row_def)

lemma sum_is_primary_zero:
  "grp \<noteq> [] \<Longrightarrow> \<forall>r \<in> set grp. is_primary r = Some 0 \<Longrightarrow> sum_is_primary grp = Some 0"
proof -
  assume ne: "grp \<noteq> []" and z: "\<forall>r \<in> set grp. is_primary r = Some 0"
  from z have "map is_primary grp = replicate (length grp) (Some 0)"
    by (induction grp) simp_all
  with ne show ?thesis by (simp add: sum_is_primary_def Let_def sum_list_replicate)
qed

lemma missing_primary_iff:
  "t \<in> set (missing_primary names) \<longleftrightarrow>
     t \<in> set (map name.tax_id names) \<and>
     sum_is_primary (filter (\<lambda>r. name.tax_id r = t) names) = Some 0"
  by (auto simp: missing_primary_def sql_eq_Some)





lemma member_le_sum_list_int:
  "\<forall>x \<in> set vs. (0::int) \<le> x \<Longrightarrow> v \<in> set vs \<Longrightarrow> v \<le> sum_list vs"
proof (induction vs)
  case Nil
  then show ?case by simp
next
  case (Cons a vs)
  then have "0 \<le> sum_list vs" by (simp add: sum_list_nonneg)
  with Cons show ?case by auto
qed

lemma sum_is_primary_pos:
  assumes nonneg: "\<forall>r \<in> set grp. \<forall>v. is_primary r = Some v \<longrightarrow> 0 \<le> v"
    and r: "r \<in> set grp" "is_primary r = Some 1"
  shows "sum_is_primary grp \<noteq> Some 0"
proof -
  let ?vs = "map the (filter (\<lambda>v. v \<noteq> None) (map is_primary grp))"
  have "Some 1 \<in> set (filter (\<lambda>v. v \<noteq> None) (map is_primary grp))"
    using r by force
  then have "the (Some (1::int)) \<in> the ` set (filter (\<lambda>v. v \<noteq> None) (map is_primary grp))"
    by (rule imageI)
  then have in_vs: "1 \<in> set ?vs" by simp
  have "\<forall>x \<in> set ?vs. 0 \<le> x" using nonneg by auto
  from member_le_sum_list_int[OF this in_vs] have "1 \<le> sum_list ?vs" .
  with in_vs show ?thesis by (auto simp: sum_is_primary_def Let_def)
qed


lemma where_row_eq: "where_row c k \<Longrightarrow> k = c"
  by (auto simp: where_row_def prod_eq_iff dest: sql_eq_same)

lemma where_row_refl:
  "fst c \<noteq> None \<Longrightarrow> fst (snd c) \<noteq> None \<Longrightarrow> fst (snd (snd c)) \<noteq> None \<Longrightarrow>
   snd (snd (snd c)) \<noteq> None \<Longrightarrow> where_row c c"
  by (auto simp: where_row_def sql_eq_def)

lemma healed_unique:
  assumes cols: "\<forall>k \<in> set K. fst (snd k) \<noteq> None \<and> fst (snd (snd k)) \<noteq> None \<and> snd (snd (snd k)) \<noteq> None"
    and ne: "filter (\<lambda>k. sql_eq (fst k) (Some t)) K \<noteq> []"
  shows "\<exists>c \<in> set K. fst c = Some t \<and> (\<forall>k \<in> set K. healed K (Some t) k \<longleftrightarrow> k = c)"
proof -
  let ?records = "filter (\<lambda>k. sql_eq (fst k) (Some t)) K"
  have refl: "where_row c c" if "c \<in> set ?records" for c
  proof -
    from that have "c \<in> set K" "fst c = Some t" by (simp_all add: sql_eq_Some)
    with cols show ?thesis by (intro where_row_refl) auto
  qed
  show ?thesis
  proof (cases "length (filter is_scientific ?records) = 1")
    case True
    then obtain c where c: "filter is_scientific ?records = [c]"
      by (cases "filter is_scientific ?records") simp_all
    then have "c \<in> set (filter is_scientific ?records)" by simp
    then have cK: "c \<in> set K" and ct: "fst c = Some t" and cs: "is_scientific c" and cr: "c \<in> set ?records"
      by (simp_all add: sql_eq_Some)
    have h: "healed K (Some t) k \<longleftrightarrow> where_class (Some t) (Some ''scientific name'') k \<or> where_row c k" for k
      unfolding healed_def Let_def c using ct by simp
    have "healed K (Some t) k \<longleftrightarrow> k = c" if k: "k \<in> set K" for k
    proof
      assume "healed K (Some t) k"
      then show "k = c"
      proof (simp only: h, elim disjE)
        assume "where_class (Some t) (Some ''scientific name'') k"
        with k have "k \<in> set (filter is_scientific ?records)"
          by (simp add: where_class_def is_scientific_def sql_eq_Some)
        then show "k = c" unfolding c by simp
      next
        assume "where_row c k"
        then show "k = c" by (rule where_row_eq)
      qed
    next
      assume "k = c"
      with refl[OF cr] show "healed K (Some t) k" by (simp add: h)
    qed
    with cK ct show ?thesis by blast
  next
    case False
    let ?c = "hd ?records"
    from ne have cr: "?c \<in> set ?records" by (rule hd_in_set)
    then have cK: "?c \<in> set K" and ct: "fst ?c = Some t" by (simp_all add: sql_eq_Some)
    have h: "healed K (Some t) k \<longleftrightarrow> where_row ?c k" for k
      using False ne by (simp add: healed_def Let_def)
    have "healed K (Some t) k \<longleftrightarrow> k = ?c" for k
      using refl[OF cr] where_row_eq[of ?c k] unfolding h by blast
    with cK ct show ?thesis by blast
  qed
qed

lemma distinct_count:
  "distinct (map f xs) \<Longrightarrow> c \<in> set (map f xs) \<Longrightarrow> length (filter (\<lambda>x. f x = c) xs) = 1"
proof (induction xs)
  case Nil
  then show ?case by simp
next
  case (Cons x xs)
  show ?case
  proof (cases "f x = c")
    case True
    with Cons.prems(1) have "\<forall>y \<in> set xs. f y \<noteq> c" by (auto simp: image_iff)
    then have "filter (\<lambda>x. f x = c) xs = []" by (simp add: filter_empty_conv)
    with True show ?thesis by simp
  next
    case False
    with Cons show ?thesis by simp
  qed
qed

lemma primary_count_after:
  "primary_count (map (set_primary w) names) t =
   length (filter (\<lambda>r. name.tax_id r = Some t \<and> (w (select_row r) \<or> is_primary r = Some 1)) names)"
proof -
  have "(\<lambda>r. name.tax_id (set_primary w r) = Some t \<and> is_primary (set_primary w r) = Some 1) =
        (\<lambda>r. name.tax_id r = Some t \<and> (w (select_row r) \<or> is_primary r = Some 1))"
    by (auto simp: set_primary_def)
  then show ?thesis by (simp add: primary_count_def filter_map comp_def)
qed

subsection \<open>What the healing guarantees: \<^verbatim>\<open>fix_missing_primary\<close>\<close>



text \<open>
  C5, at three concrete tables in which the id 7 has name rows. Two rows that agree on
  \<^verbatim>\<open>tax_name\<close>, \<^verbatim>\<open>unique_name\<close> and \<^verbatim>\<open>name_class\<close> are both promoted, because the UPDATE
  finds the chosen row by its column values. An id with two primary rows is not selected
  (\<^verbatim>\<open>SUM(is_primary) = 2\<close>) and keeps both. A chosen row with a NULL \<^verbatim>\<open>unique_name\<close> (the
  alternate names that \<^verbatim>\<open>greengenes.py\<close> inserts have one) is matched by no UPDATE, and
  the id keeps zero primary rows.
\<close>

theorem fix_missing_primary_not_one_primary:
  "fix_missing_primary
     [\<lparr>name.tax_id = Some ''7'', tax_name = Some ''X'', unique_name = Some [],
       name_class = Some ''synonym'', is_primary = Some 0, is_classified = Some 1\<rparr>,
      \<lparr>name.tax_id = Some ''7'', tax_name = Some ''X'', unique_name = Some [],
       name_class = Some ''synonym'', is_primary = Some 0, is_classified = Some 1\<rparr>]
   = Inr ([\<lparr>name.tax_id = Some ''7'', tax_name = Some ''X'', unique_name = Some [],
            name_class = Some ''synonym'', is_primary = Some 1, is_classified = Some 1\<rparr>,
           \<lparr>name.tax_id = Some ''7'', tax_name = Some ''X'', unique_name = Some [],
            name_class = Some ''synonym'', is_primary = Some 1, is_classified = Some 1\<rparr>], 2) \<and>
   primary_count
     [\<lparr>name.tax_id = Some ''7'', tax_name = Some ''X'', unique_name = Some [],
       name_class = Some ''synonym'', is_primary = Some 1, is_classified = Some 1\<rparr>,
      \<lparr>name.tax_id = Some ''7'', tax_name = Some ''X'', unique_name = Some [],
       name_class = Some ''synonym'', is_primary = Some 1, is_classified = Some 1\<rparr>] ''7'' = 2 \<and>
   fix_missing_primary
     [\<lparr>name.tax_id = Some ''7'', tax_name = Some ''X'', unique_name = Some [],
       name_class = Some ''scientific name'', is_primary = Some 1, is_classified = Some 1\<rparr>,
      \<lparr>name.tax_id = Some ''7'', tax_name = Some ''X syn'', unique_name = Some [],
       name_class = Some ''synonym'', is_primary = Some 1, is_classified = Some 1\<rparr>]
   = Inr ([\<lparr>name.tax_id = Some ''7'', tax_name = Some ''X'', unique_name = Some [],
            name_class = Some ''scientific name'', is_primary = Some 1, is_classified = Some 1\<rparr>,
           \<lparr>name.tax_id = Some ''7'', tax_name = Some ''X syn'', unique_name = Some [],
            name_class = Some ''synonym'', is_primary = Some 1, is_classified = Some 1\<rparr>], 0) \<and>
   primary_count
     [\<lparr>name.tax_id = Some ''7'', tax_name = Some ''X'', unique_name = Some [],
       name_class = Some ''scientific name'', is_primary = Some 1, is_classified = Some 1\<rparr>,
      \<lparr>name.tax_id = Some ''7'', tax_name = Some ''X syn'', unique_name = Some [],
       name_class = Some ''synonym'', is_primary = Some 1, is_classified = Some 1\<rparr>] ''7'' = 2 \<and>
   fix_missing_primary
     [\<lparr>name.tax_id = Some ''7'', tax_name = Some ''X'', unique_name = None,
       name_class = Some ''greengenes lineage'', is_primary = Some 0, is_classified = Some 1\<rparr>]
   = Inr ([\<lparr>name.tax_id = Some ''7'', tax_name = Some ''X'', unique_name = None,
            name_class = Some ''greengenes lineage'', is_primary = Some 0, is_classified = Some 1\<rparr>], 0) \<and>
   primary_count
     [\<lparr>name.tax_id = Some ''7'', tax_name = Some ''X'', unique_name = None,
       name_class = Some ''greengenes lineage'', is_primary = Some 0, is_classified = Some 1\<rparr>] ''7'' = 0"
  by (simp add: fix_missing_primary_def missing_primary_def sum_is_primary_def sql_eq_def
      heal_def rows_for_taxid_def is_scientific_def select_row_def update_is_primary_def
      set_primary_def where_class_def where_row_def primary_count_def)

text \<open>
  C5, as amended. Let the run complete on a table in which \<^verbatim>\<open>is_primary\<close> is 0 or 1,
  \<^verbatim>\<open>tax_name\<close>, \<^verbatim>\<open>unique_name\<close> and \<^verbatim>\<open>name_class\<close> are not NULL and no two rows agree on
  \<^verbatim>\<open>tax_id\<close>, \<^verbatim>\<open>tax_name\<close>, \<^verbatim>\<open>unique_name\<close> and \<^verbatim>\<open>name_class\<close>. Then every id that has a
  name row and had at most one primary row before has exactly one primary row afterwards.
\<close>

theorem fix_missing_primary_one_primary:
  assumes run: "fix_missing_primary names = Inr (names', n)"
    and flags: "\<forall>r \<in> set names. is_primary r = Some 0 \<or> is_primary r = Some 1"
    and cols: "\<forall>r \<in> set names. tax_name r \<noteq> None \<and> unique_name r \<noteq> None \<and> name_class r \<noteq> None"
    and dist: "distinct (map select_row names)"
    and t: "Some t \<in> set (map name.tax_id names)"
    and le1: "primary_count names t \<le> 1"
  shows "primary_count names' t = 1"
proof -
  let ?K = "map select_row names"
  let ?M = "missing_primary names"
  let ?P = "\<lambda>k. \<exists>t \<in> set ?M. healed ?K t k"
  let ?grp = "filter (\<lambda>r. name.tax_id r = Some t) names"
  from run have names': "names' = map (set_primary ?P) names"
    by (simp add: fix_missing_primary_eq split: if_splits)
  have count: "primary_count names' t =
      length (filter (\<lambda>r. name.tax_id r = Some t \<and> (?P (select_row r) \<or> is_primary r = Some 1)) names)"
    unfolding names' by (rule primary_count_after)
  from t have grp: "?grp \<noteq> []" by (auto simp: filter_empty_conv)
  show ?thesis
  proof (cases "Some t \<in> set ?M")
    case True
    then have sum: "sum_is_primary ?grp = Some 0" by (simp add: missing_primary_iff)
    have zero: "is_primary r = Some 0" if "r \<in> set names" "name.tax_id r = Some t" for r
    proof (rule ccontr)
      assume "is_primary r \<noteq> Some 0"
      with flags that(1) have p1: "is_primary r = Some 1" by blast
      have "\<forall>r \<in> set ?grp. \<forall>v. is_primary r = Some v \<longrightarrow> 0 \<le> v" using flags by auto
      moreover have "r \<in> set ?grp" using that by simp
      ultimately have "sum_is_primary ?grp \<noteq> Some 0" using p1 by (rule sum_is_primary_pos)
      with sum show False by simp
    qed
    have "\<forall>k \<in> set ?K. fst (snd k) \<noteq> None \<and> fst (snd (snd k)) \<noteq> None \<and> snd (snd (snd k)) \<noteq> None"
      using cols by (simp add: select_row_def)
    moreover have "filter (\<lambda>k. sql_eq (fst k) (Some t)) ?K \<noteq> []"
      using t by (auto simp: filter_empty_conv select_row_def sql_eq_Some)
    ultimately obtain c where c: "c \<in> set ?K" "fst c = Some t"
      and uniq: "\<forall>k \<in> set ?K. healed ?K (Some t) k \<longleftrightarrow> k = c"
      using healed_unique[of ?K t] by blast
    have "filter (\<lambda>r. name.tax_id r = Some t \<and> (?P (select_row r) \<or> is_primary r = Some 1)) names =
          filter (\<lambda>r. select_row r = c) names"
    proof (rule filter_cong[OF refl])
      fix r assume r: "r \<in> set names"
      then have rK: "select_row r \<in> set ?K" by simp
      show "(name.tax_id r = Some t \<and> (?P (select_row r) \<or> is_primary r = Some 1)) = (select_row r = c)"
      proof
        assume a: "name.tax_id r = Some t \<and> (?P (select_row r) \<or> is_primary r = Some 1)"
        with zero[OF r] have "?P (select_row r)" by simp
        then obtain t' where "healed ?K t' (select_row r)" by blast
        with a have "healed ?K (Some t) (select_row r)" using healed_only by blast
        with uniq rK show "select_row r = c" by blast
      next
        assume e: "select_row r = c"
        with c(2) have "name.tax_id r = Some t" by (auto simp: select_row_def)
        moreover from e uniq rK have "healed ?K (Some t) (select_row r)" by blast
        ultimately show "name.tax_id r = Some t \<and> (?P (select_row r) \<or> is_primary r = Some 1)"
          using True by blast
      qed
    qed
    with count distinct_count[OF dist c(1)] show ?thesis by simp
  next
    case False
    have "filter (\<lambda>r. name.tax_id r = Some t \<and> (?P (select_row r) \<or> is_primary r = Some 1)) names =
          filter (\<lambda>r. name.tax_id r = Some t \<and> is_primary r = Some 1) names"
    proof (rule filter_cong[OF refl])
      fix r assume "r \<in> set names"
      show "(name.tax_id r = Some t \<and> (?P (select_row r) \<or> is_primary r = Some 1)) =
            (name.tax_id r = Some t \<and> is_primary r = Some 1)"
        using False healed_only[of ?K _ r t] by blast
    qed
    with count have same: "primary_count names' t = primary_count names t"
      by (simp add: primary_count_def)
    have "\<exists>r \<in> set ?grp. is_primary r \<noteq> Some 0"
    proof (rule ccontr)
      assume "\<not> (\<exists>r \<in> set ?grp. is_primary r \<noteq> Some 0)"
      then have "\<forall>r \<in> set ?grp. is_primary r = Some 0" by blast
      with grp have "sum_is_primary ?grp = Some 0" by (rule sum_is_primary_zero)
      with t False show False by (simp add: missing_primary_iff)
    qed
    then obtain r where "r \<in> set names" "name.tax_id r = Some t" "is_primary r \<noteq> Some 0" by auto
    with flags have "r \<in> set (filter (\<lambda>r. name.tax_id r = Some t \<and> is_primary r = Some 1) names)"
      by auto
    then have "filter (\<lambda>r. name.tax_id r = Some t \<and> is_primary r = Some 1) names \<noteq> []"
      by (auto simp del: set_filter)
    then have "1 \<le> primary_count names t"
      by (simp add: primary_count_def Suc_le_eq)
    with le1 same show ?thesis by simp
  qed
qed

theorem fix_missing_primary_one_primary_witness:
  "fix_missing_primary
     [\<lparr>name.tax_id = Some ''7'', tax_name = Some ''X'', unique_name = Some [],
       name_class = Some ''synonym'', is_primary = Some 0, is_classified = Some 1\<rparr>,
      \<lparr>name.tax_id = Some ''7'', tax_name = Some ''Y'', unique_name = Some [],
       name_class = Some ''synonym'', is_primary = Some 0, is_classified = Some 1\<rparr>,
      \<lparr>name.tax_id = Some ''8'', tax_name = Some ''Z'', unique_name = Some [],
       name_class = Some ''scientific name'', is_primary = Some 1, is_classified = Some 1\<rparr>]
   = Inr ([\<lparr>name.tax_id = Some ''7'', tax_name = Some ''X'', unique_name = Some [],
            name_class = Some ''synonym'', is_primary = Some 1, is_classified = Some 1\<rparr>,
           \<lparr>name.tax_id = Some ''7'', tax_name = Some ''Y'', unique_name = Some [],
            name_class = Some ''synonym'', is_primary = Some 0, is_classified = Some 1\<rparr>,
           \<lparr>name.tax_id = Some ''8'', tax_name = Some ''Z'', unique_name = Some [],
            name_class = Some ''scientific name'', is_primary = Some 1, is_classified = Some 1\<rparr>], 1) \<and>
   primary_count
     [\<lparr>name.tax_id = Some ''7'', tax_name = Some ''X'', unique_name = Some [],
       name_class = Some ''synonym'', is_primary = Some 1, is_classified = Some 1\<rparr>,
      \<lparr>name.tax_id = Some ''7'', tax_name = Some ''Y'', unique_name = Some [],
       name_class = Some ''synonym'', is_primary = Some 0, is_classified = Some 1\<rparr>,
      \<lparr>name.tax_id = Some ''8'', tax_name = Some ''Z'', unique_name = Some [],
       name_class = Some ''scientific name'', is_primary = Some 1, is_classified = Some 1\<rparr>] ''7'' = 1"
proof -
  let ?x = "\<lparr>name.tax_id = Some ''7'', tax_name = Some ''X'', unique_name = Some [],
       name_class = Some ''synonym'', is_primary = Some 0, is_classified = Some 1\<rparr>"
  let ?y = "\<lparr>name.tax_id = Some ''7'', tax_name = Some ''Y'', unique_name = Some [],
       name_class = Some ''synonym'', is_primary = Some 0, is_classified = Some 1\<rparr>"
  let ?z = "\<lparr>name.tax_id = Some ''8'', tax_name = Some ''Z'', unique_name = Some [],
       name_class = Some ''scientific name'', is_primary = Some 1, is_classified = Some 1\<rparr>"
  have run: "fix_missing_primary [?x, ?y, ?z] = Inr ([?x\<lparr>is_primary := Some 1\<rparr>, ?y, ?z], 1)"
    by (simp add: fix_missing_primary_def missing_primary_def sum_is_primary_def sql_eq_def
        heal_def rows_for_taxid_def is_scientific_def select_row_def update_is_primary_def
        set_primary_def where_class_def where_row_def)
  have flags: "\<forall>r \<in> set [?x, ?y, ?z]. is_primary r = Some 0 \<or> is_primary r = Some 1"
    by simp
  have cols: "\<forall>r \<in> set [?x, ?y, ?z]. tax_name r \<noteq> None \<and> unique_name r \<noteq> None \<and> name_class r \<noteq> None"
    by simp
  have dist: "distinct (map select_row [?x, ?y, ?z])"
    by (simp add: select_row_def)
  have t: "Some ''7'' \<in> set (map name.tax_id [?x, ?y, ?z])"
    by simp
  have le1: "primary_count [?x, ?y, ?z] ''7'' \<le> 1"
    by (simp add: primary_count_def)
  from fix_missing_primary_one_primary[OF run flags cols dist t le1] run
  show ?thesis by simp
qed






end
